theory Spec2Isabelle
  imports Main "HOL-Library.Word"
begin

unbundle bit_operations_syntax

section \<open>Machine types\<close>

text \<open>
  The header \<^verbatim>\<open>tools/optimizer/wasm.h\<close> belongs to a tool that is built for the
  host. It is read in the data model of a 64-bit host (LP64, x86-64): \<^verbatim>\<open>int\<close> and
  \<^verbatim>\<open>unsigned\<close> are 32 bits wide, \<^verbatim>\<open>size_t\<close> and data pointers are 64 bits wide, and
  the bytes of a word are stored lowest first. Arithmetic on words wraps around as
  unsigned C arithmetic does; \<open>scast\<close> is the conversion of an \<^verbatim>\<open>int\<close> to
  \<^verbatim>\<open>size_t\<close> (sign extension) and \<open>ucast\<close> the conversion back (the low 32 bits).

  \<^verbatim>\<open>assert\<close> is the one of \<^verbatim>\<open><cassert>\<close> without \<^verbatim>\<open>NDEBUG\<close>: a false condition
  aborts the program. An operation that can abort returns an \<open>option\<close>; \<open>None\<close> is the
  abort, \<open>Some\<close> the normal return.
\<close>

type_synonym size_t = "64 word"
type_synonym unsigned = "32 word"
type_synonym c_int = "32 word"

text \<open>
  The values \<^verbatim>\<open>sizeof(T)\<close> can take: every complete object type has a size of at
  least one byte, and no object is larger than \<^verbatim>\<open>PTRDIFF_MAX\<close> bytes.
\<close>

definition sizeof_value :: "size_t \<Rightarrow> bool" where
  "sizeof_value s \<longleftrightarrow> 0 < s \<and> s \<le> 0x7FFFFFFFFFFFFFFF"

section \<open>Arena\<close>

text \<open>
  \<^verbatim>\<open>std::vector<char*> chunks; int index;\<close>
  A chunk is the block returned by one \<^verbatim>\<open>new char[CHUNK_SIZE]\<close>. Blocks are named by
  numbers; a pointer into a block is the block and the (signed) distance from its start,
  as in \<^verbatim>\<open>chunks.back() + index\<close>. \<^verbatim>\<open>Expression*\<close> and the other node pointers are
  such pointers, or null.
\<close>

datatype ptr = nullptr | Ptr (block: nat) (byte_offset: int)

record Arena =
  chunks :: "nat list"
  index :: c_int

definition CHUNK_SIZE :: size_t where
  "CHUNK_SIZE = 10000"

text \<open>\<^verbatim>\<open>size_t currSize = (sizeof(T) + 7) & (-8);\<close>\<close>

definition currSize :: "size_t \<Rightarrow> size_t" where
  "currSize sizeof_T = (sizeof_T + 7) AND (- 8)"

text \<open>
  \<^verbatim>\<open>new char[CHUNK_SIZE]\<close> returns storage that overlaps no live block: the new block
  gets the next unused number. The system is taken to have the memory.
\<close>

definition new_chunk :: "Arena \<Rightarrow> nat" where
  "new_chunk a = length (chunks a)"

text \<open>
  \<^verbatim>\<open>template<class T> T* alloc()\<close>, with \<^verbatim>\<open>sizeof(T)\<close> as the argument. The failed
  \<^verbatim>\<open>assert(currSize < CHUNK_SIZE)\<close> is \<open>None\<close>. In \<^verbatim>\<open>index + currSize\<close> the
  \<^verbatim>\<open>int\<close> is converted to \<^verbatim>\<open>size_t\<close>, and \<^verbatim>\<open>index += currSize\<close> converts the sum
  back to \<^verbatim>\<open>int\<close>.
\<close>

definition alloc :: "size_t \<Rightarrow> Arena \<Rightarrow> (ptr \<times> Arena) option" where
  "alloc sizeof_T a =
    (if \<not> currSize sizeof_T < CHUNK_SIZE then None
     else
       let a1 = (if length (chunks a) = 0 \<or> scast (index a) + currSize sizeof_T \<ge> CHUNK_SIZE
                 then a\<lparr>chunks := chunks a @ [new_chunk a], index := 0\<rparr>
                 else a);
           ret = Ptr (last (chunks a1)) (sint (index a1))
       in Some (ret, a1\<lparr>index := ucast (scast (index a1) + currSize sizeof_T)\<rparr>))"

text \<open>
  A sequence of allocations, one per requested size, stopping at the first abort. The
  pointers come back in the order of the requests.
\<close>

fun allocs :: "size_t list \<Rightarrow> Arena \<Rightarrow> (ptr list \<times> Arena) option" where
  "allocs [] a = Some ([], a)"
| "allocs (s # ss) a =
     (case alloc s a of
        None \<Rightarrow> None
      | Some (p, a') \<Rightarrow>
          (case allocs ss a' of
             None \<Rightarrow> None
           | Some (ps, a'') \<Rightarrow> Some (p # ps, a'')))"

text \<open>
  \<^verbatim>\<open>Arena\<close> has no constructor: a new arena has no chunks, and its \<^verbatim>\<open>index\<close> holds
  whatever the memory held.
\<close>

definition Arena_new :: "c_int \<Rightarrow> Arena" where
  "Arena_new garbage = \<lparr>chunks = [], index = garbage\<rparr>"

text \<open>The arenas a program can have: a new one, and those left by an allocation.\<close>

inductive reachable :: "Arena \<Rightarrow> bool" where
  reachable_new: "reachable (Arena_new garbage)"
| reachable_alloc: "reachable a \<Longrightarrow> sizeof_value s \<Longrightarrow> alloc s a = Some (p, a') \<Longrightarrow> reachable a'"

code_pred reachable .

text \<open>
  The bytes of an allocation: \<open>n\<close> bytes from the returned pointer on, as a set of
  (block, offset) positions.
\<close>

definition region :: "ptr \<Rightarrow> nat \<Rightarrow> (nat \<times> int) set" where
  "region p n = {block p} \<times> {byte_offset p ..< byte_offset p + int n}"

text \<open>
  The invariant of the arenas a program can have: the chunks are the blocks \<open>0\<close>,
  \<open>1\<close>, ... in the order of their creation, and once there is a chunk the cursor is a
  multiple of 8 strictly between 0 and the chunk size.
\<close>

definition Arena_inv :: "Arena \<Rightarrow> bool" where
  "Arena_inv a \<longleftrightarrow>
     chunks a = [0..<length (chunks a)] \<and>
     (chunks a \<noteq> [] \<longrightarrow> 0 < unat (index a) \<and> unat (index a) < 10000 \<and> 8 dvd unat (index a))"

text \<open>The cursor of an arena, read as 0 while there is no chunk.\<close>

definition cursor :: "Arena \<Rightarrow> nat" where
  "cursor a = (if chunks a = [] then 0 else unat (index a))"

text \<open>
  The positions no later allocation can return: every chunk but the last as a whole, and
  the last chunk below the cursor.
\<close>

definition claimed :: "Arena \<Rightarrow> (nat \<times> int) set" where
  "claimed a = {(b, i). b < length (chunks a) \<and> 0 \<le> i \<and>
      (if Suc b = length (chunks a) then i < int (unat (index a)) else i < 10000)}"

section \<open>Var\<close>

text \<open>
  \<^verbatim>\<open>typedef const char *Name;\<close> A name is the address of its characters.
\<close>

type_synonym Name = "64 word"

text \<open>
  \<^verbatim>\<open>enum { MAX_NUM = 1000000 };\<close> It is compared with an \<^verbatim>\<open>unsigned\<close> and with a
  \<^verbatim>\<open>size_t\<close>, at the width of the other operand.
\<close>

definition MAX_NUM :: "'a::len word" where
  "MAX_NUM = 1000000"

text \<open>
  \<^verbatim>\<open>union { unsigned num; Name str; };\<close> The union is the eight bytes of the pointer.
  \<^verbatim>\<open>str\<close> is all of them; \<^verbatim>\<open>num\<close> is the first four, the low half of the word.
\<close>

record Var =
  bits :: "64 word"

definition num :: "Var \<Rightarrow> unsigned" where
  "num v = ucast (bits v)"

definition str :: "Var \<Rightarrow> Name" where
  "str v = bits v"

text \<open>
  Initialising \<^verbatim>\<open>num\<close> writes its four bytes and leaves the other four bytes of the
  union as they were: \<open>mem\<close> is what the eight bytes held before.
\<close>

definition write_num :: "64 word \<Rightarrow> unsigned \<Rightarrow> 64 word" where
  "write_num mem n = (mem AND NOT (mask 32)) OR ucast n"

text \<open>\<^verbatim>\<open>Var() : num(0) {}\<close>\<close>

definition Var_null :: "64 word \<Rightarrow> Var" where
  "Var_null mem = \<lparr>bits = write_num mem 0\<rparr>"

text \<open>\<^verbatim>\<open>Var(unsigned num) : num(num) { assert(num > 0 && num < MAX_NUM); }\<close>\<close>

definition Var_num :: "64 word \<Rightarrow> unsigned \<Rightarrow> Var option" where
  "Var_num mem n = (if n > 0 \<and> n < MAX_NUM then Some \<lparr>bits = write_num mem n\<rparr> else None)"

text \<open>\<^verbatim>\<open>Var(Name str) : str(str) { assert(((size_t)str) > MAX_NUM); }\<close>\<close>

definition Var_str :: "Name \<Rightarrow> Var option" where
  "Var_str s = (if s > MAX_NUM then Some \<lparr>bits = s\<rparr> else None)"

text \<open>
  The reading rule written beside \<^verbatim>\<open>MAX_NUM\<close>: "less than this, a num, higher, a
  string; 0 = null". A number is read through \<^verbatim>\<open>num\<close> and a string through
  \<^verbatim>\<open>str\<close>.
\<close>

definition is_null :: "Var \<Rightarrow> bool" where
  "is_null v \<longleftrightarrow> num v = 0"

definition is_numeric :: "Var \<Rightarrow> bool" where
  "is_numeric v \<longleftrightarrow> 0 < num v \<and> num v < MAX_NUM"

definition is_named :: "Var \<Rightarrow> bool" where
  "is_named v \<longleftrightarrow> MAX_NUM < str v"

text \<open>
  Modelled from the spec: the equality of two identifiers, for which \<^verbatim>\<open>wasm.h\<close>
  declares no operator. "Two identifiers are equal iff both are numeric with equal value,
  or both are named with equal underlying name -- never across the two modes."
\<close>

definition Var_eq :: "Var \<Rightarrow> Var \<Rightarrow> bool" where
  "Var_eq a b \<longleftrightarrow>
     (is_numeric a \<and> is_numeric b \<and> num a = num b) \<or> (is_named a \<and> is_named b \<and> str a = str b)"

section \<open>Types and literals\<close>

datatype BasicType = none | i32 | i64 | f32 | f64

text \<open>
  \<^verbatim>\<open>struct Literal { BasicType type; union value { int32_t i32; int64_t i64; float f32;
  double f64; }; };\<close>
  The declaration \<^verbatim>\<open>union value { ... };\<close> names a nested type; it declares no data
  member. The only data member of a \<^verbatim>\<open>Literal\<close> is \<^verbatim>\<open>type\<close>. The nested union type is
  eight bytes read in one of four ways.
\<close>

type_synonym Literal_value = "64 word"

record Literal =
  type :: BasicType

section \<open>Expressions\<close>

text \<open>
  \<^verbatim>\<open>class Expression {};\<close> has no members: an \<^verbatim>\<open>Expression*\<close> is a bare pointer. The
  node classes are records of their public fields. \<^verbatim>\<open>signed_\<close>, \<^verbatim>\<open>default_\<close> and
  \<^verbatim>\<open>id\<close> are written \<open>signed'\<close>, \<open>default'\<close> and \<open>id'\<close>.
\<close>

record GetLocal =
  id' :: Var

record Load =
  bytes :: unsigned
  signed' :: bool
  offset :: c_int
  align :: unsigned
  ptr :: ptr

record Const =
  "value" :: Literal

record Case =
  "value" :: Literal
  body :: ptr
  fallthru :: bool

record Switch =
  var :: Var
  "value" :: ptr
  cases :: "Case list"
  default' :: ptr

text \<open>\<^verbatim>\<open>cases.push_back(c)\<close> on a \<^verbatim>\<open>Switch\<close>.\<close>

definition cases_push_back :: "Case \<Rightarrow> Switch \<Rightarrow> Switch" where
  "cases_push_back c s = s\<lparr>cases := cases s @ [c]\<rparr>"

text \<open>
  The nodes of two scenarios. No class has a constructor: a node is built by assigning
  its fields, here on a node \<open>l\<close> or \<open>s\<close> whose fields hold anything. The first is a
  \<^verbatim>\<open>Load\<close> with \<^verbatim>\<open>bytes = 4\<close>, \<^verbatim>\<open>signed_ = false\<close>, \<^verbatim>\<open>offset = 8\<close> and \<^verbatim>\<open>ptr\<close> the
  address \<open>g\<close> of a \<^verbatim>\<open>GetLocal\<close> node whose identifier has the value 0. That identifier
  is \<^verbatim>\<open>Var()\<close>: the numeric constructor does not accept 0.
\<close>

definition GetLocal_0 :: "64 word \<Rightarrow> GetLocal" where
  "GetLocal_0 mem = \<lparr>id' = Var_null mem\<rparr>"

definition Load_example :: "Load \<Rightarrow> ptr \<Rightarrow> Load" where
  "Load_example l g = l\<lparr>bytes := 4, signed' := False, offset := 8, ptr := g\<rparr>"

text \<open>
  The second is a \<^verbatim>\<open>Switch\<close> that gets three cases in order, the first two marked
  \<^verbatim>\<open>fallthru\<close> and the third not, and then a default.
\<close>

definition Switch_example :: "Switch \<Rightarrow> Case \<Rightarrow> Case \<Rightarrow> Case \<Rightarrow> ptr \<Rightarrow> Switch" where
  "Switch_example s c1 c2 c3 d =
     (cases_push_back (c3\<lparr>fallthru := False\<rparr>)
       (cases_push_back (c2\<lparr>fallthru := True\<rparr>)
         (cases_push_back (c1\<lparr>fallthru := True\<rparr>) (s\<lparr>cases := []\<rparr>))))\<lparr>default' := d\<rparr>"

section \<open>Globals\<close>

record NameType =
  name :: Name
  type :: BasicType

record CustomType =
  self :: NameType
  params :: "NameType list"

record Function =
  self :: NameType
  params :: "NameType list"
  locals :: "NameType list"

record Import =
  name :: Name
  type :: CustomType

record Export =
  name :: Name
  "value" :: Var

record Table =
  vars :: "Var list"

text \<open>
  The \<^verbatim>\<open>void*\<close> values of the module's map point at what the module holds: an element
  of one of its vectors, given by the vector and the position, or a node in the arena.
\<close>

datatype void_ptr =
    CustomType_at nat
  | Function_at nat
  | Import_at nat
  | Export_at nat
  | Node_at ptr

text \<open>
  \<^verbatim>\<open>class Module\<close>; the field \<^verbatim>\<open>map\<close> is written \<open>map'\<close>.
\<close>

record Module =
  customTypes :: "CustomType list"
  "functions" :: "Function list"
  "imports" :: "Import list"
  exports :: "Export list"
  table :: Table
  map' :: "Var \<rightharpoonup> void_ptr"
  nextVar :: unsigned
  allocator :: Arena

text \<open>
  \<^verbatim>\<open>Module() : nextVar(1) {}\<close> The other members are default-constructed; the
  allocator's \<^verbatim>\<open>index\<close> is not initialised.
\<close>

definition Module_new :: "c_int \<Rightarrow> Module" where
  "Module_new garbage =
     \<lparr>customTypes = [], functions = [], imports = [], exports = [],
      table = \<lparr>vars = []\<rparr>, map' = Map.empty, nextVar = 1,
      allocator = Arena_new garbage\<rparr>"

text \<open>
  Modelled from the spec: the module's operation "mint a fresh numeric identifier", which
  \<^verbatim>\<open>wasm.h\<close> does not define. "Minting mutates the counter"; the identifier is a
  numeric \<^verbatim>\<open>Var\<close> made from the counter's value by the constructor of the source,
  in storage that held \<open>mem\<close>, and the counter, "a monotonically increasing counter",
  goes up by one.
\<close>

definition mint :: "64 word \<Rightarrow> Module \<Rightarrow> (Var \<times> Module) option" where
  "mint mem m =
     (case Var_num mem (nextVar m) of
        None \<Rightarrow> None
      | Some v \<Rightarrow> Some (v, m\<lparr>nextVar := nextVar m + 1\<rparr>))"

text \<open>
  Minting in a row, once for each element of \<open>mems\<close>, which tells what the storage of
  each new identifier held; the identifiers in the order they were minted.
\<close>

fun mints :: "64 word list \<Rightarrow> Module \<Rightarrow> (Var list \<times> Module) option" where
  "mints [] m = Some ([], m)"
| "mints (mem # mems) m =
     (case mint mem m of
        None \<Rightarrow> None
      | Some (v, m') \<Rightarrow>
          (case mints mems m' of
             None \<Rightarrow> None
           | Some (vs, m'') \<Rightarrow> Some (v # vs, m'')))"






section \<open>Theorems\<close>

subsection \<open>Rounding\<close>

lemma neg8_mask: "(- 8 :: size_t) = NOT (mask 3)"
  by (simp add: mask_eq_exp_minus_1)

lemma and_neg8: "(x::size_t) AND (- 8) = push_bit 3 (drop_bit 3 x)"
  unfolding neg8_mask by (rule bit_word_eqI) (auto simp: bit_simps)

lemma unat_and_neg8: "unat ((x::size_t) AND (- 8)) = unat x div 8 * 8"
proof -
  have d: "unat (drop_bit 3 x) = unat x div 8"
    by (simp add: drop_bit_eq_div unat_div)
  have "unat x < 2 ^ 64"
    using unsigned_less [of x] by simp
  with d have "unat (drop_bit 3 x) * 8 < 2 ^ 64"
    by simp
  then have "unat (drop_bit 3 x * 8) = unat (drop_bit 3 x) * 8"
    by (simp add: unat_word_ariths)
  with d show ?thesis
    by (simp add: and_neg8 push_bit_eq_mult)
qed

lemma unat_currSize:
  assumes "sizeof_value s"
  shows "unat (currSize s) = (unat s + 7) div 8 * 8"
proof -
  from assms have "unat s \<le> 0x7FFFFFFFFFFFFFFF"
    by (simp add: sizeof_value_def word_le_nat_alt)
  then have "unat (s + 7) = unat s + 7"
    by (simp add: unat_word_ariths)
  then show ?thesis
    by (simp add: currSize_def unat_and_neg8)
qed

lemma currSize_bounds:
  assumes "sizeof_value s"
  shows "unat s \<le> unat (currSize s)" and "0 < unat (currSize s)" and "8 dvd unat (currSize s)"
proof -
  from assms have "0 < unat s"
    by (simp add: sizeof_value_def word_less_nat_alt)
  then show "unat s \<le> unat (currSize s)" and "0 < unat (currSize s)" and "8 dvd unat (currSize s)"
    using unat_currSize [OF assms] by presburger+
qed

subsection \<open>Conversions of the cursor\<close>

lemma sint_small:
  assumes "unat (w :: c_int) < 10000"
  shows "sint w = int (unat w)"
proof -
  have u: "uint w = int (unat w)"
    by simp
  moreover have "int (unat w) < 10000"
    using assms by linarith
  moreover have "(10000::int) < 2 ^ 31"
    by simp
  ultimately have "- (2 ^ 31) \<le> uint w" "uint w < 2 ^ 31"
    by linarith+
  then have "signed_take_bit 31 (uint w) = uint w"
    by (rule signed_take_bit_int_eq_self)
  moreover have "sint w = signed_take_bit (LENGTH(32) - Suc 0) (uint w)"
    by (rule sint_uint)
  moreover have "LENGTH(32) - Suc 0 = 31"
    by simp
  ultimately show ?thesis
    using u by (simp only:)
qed

lemma unat_scast_small:
  assumes "unat (w :: c_int) < 10000"
  shows "unat (scast w :: size_t) = unat w"
proof -
  have "(scast w :: size_t) = word_of_int (int (unat w))"
    using sint_small [OF assms] by (simp only: scast_eq)
  then have "(scast w :: size_t) = word_of_nat (unat w)"
    by simp
  then have "unat (scast w :: size_t) = unat w mod 2 ^ LENGTH(64)"
    by (simp only: unat_of_nat)
  moreover have "unat w < 2 ^ LENGTH(64)"
    using assms by simp
  ultimately show ?thesis
    by simp
qed

lemma unat_ucast_small:
  assumes "unat (x :: size_t) < 20000"
  shows "unat (ucast x :: c_int) = unat x"
proof -
  have "unat (ucast x :: c_int) = take_bit LENGTH(32) (unat x)"
    by (rule unsigned_ucast_eq)
  moreover have "unat x < 2 ^ LENGTH(32)"
    using assms by simp
  ultimately show ?thesis
    by (simp add: take_bit_nat_eq_self)
qed

lemma unat_cursor_add:
  assumes "unat (i :: c_int) < 10000" "unat (c :: size_t) < 10000"
  shows "unat (scast i + c) = unat i + unat c"
    and "unat (ucast (scast i + c) :: c_int) = unat i + unat c"
proof -
  have "unat (scast i :: size_t) + unat c < 2 ^ 64"
    using assms by (simp add: unat_scast_small)
  then show s: "unat (scast i + c) = unat i + unat c"
    using assms(1) by (simp add: unat_word_ariths unat_scast_small)
  then have "unat (scast i + c) < 20000"
    using assms by linarith
  then show "unat (ucast (scast i + c) :: c_int) = unat i + unat c"
    using s by (simp add: unat_ucast_small)
qed

subsection \<open>The arena invariant\<close>

lemma unat_CHUNK_SIZE: "unat CHUNK_SIZE = 10000"
  by (simp add: CHUNK_SIZE_def)

lemma currSize_less:
  "currSize s < CHUNK_SIZE \<longleftrightarrow> unat (currSize s) < 10000"
  by (simp add: word_less_nat_alt unat_CHUNK_SIZE)

lemma alloc_Some_less:
  "alloc s a = Some (p, a') \<Longrightarrow> unat (currSize s) < 10000"
  by (simp add: alloc_def currSize_less split: if_splits)

lemma alloc_same_chunk:
  assumes "chunks a \<noteq> []" "unat (index a) < 10000" "currSize s < CHUNK_SIZE"
    "unat (index a) + unat (currSize s) < 10000"
  shows "alloc s a =
    Some (Ptr (last (chunks a)) (int (unat (index a))),
      a\<lparr>index := ucast (scast (index a) + currSize s)\<rparr>)"
proof -
  have c: "unat (currSize s) < 10000"
    using assms(3) by (simp add: currSize_less)
  have "unat (scast (index a) + currSize s) = unat (index a) + unat (currSize s)"
    using assms(2) c by (rule unat_cursor_add)
  then have "\<not> CHUNK_SIZE \<le> scast (index a) + currSize s"
    using assms(4) by (simp add: word_le_nat_alt unat_CHUNK_SIZE)
  moreover have "sint (index a) = int (unat (index a))"
    using assms(2) by (rule sint_small)
  ultimately show ?thesis
    using assms(1,3) by (simp add: alloc_def Let_def)
qed

lemma alloc_new_chunk:
  assumes "currSize s < CHUNK_SIZE"
    "chunks a = [] \<or> (unat (index a) < 10000 \<and> 10000 \<le> unat (index a) + unat (currSize s))"
  shows "alloc s a =
    Some (Ptr (new_chunk a) 0, a\<lparr>chunks := chunks a @ [new_chunk a], index := ucast (currSize s)\<rparr>)"
proof -
  have c: "unat (currSize s) < 10000"
    using assms(1) by (simp add: currSize_less)
  have "length (chunks a) = 0 \<or> CHUNK_SIZE \<le> scast (index a) + currSize s"
  proof (cases "chunks a = []")
    case True
    then show ?thesis by simp
  next
    case False
    with assms(2) have b: "unat (index a) < 10000" "10000 \<le> unat (index a) + unat (currSize s)"
      by simp_all
    from b(1) c have "unat (scast (index a) + currSize s) = unat (index a) + unat (currSize s)"
      by (rule unat_cursor_add)
    with b show ?thesis
      by (simp add: word_le_nat_alt unat_CHUNK_SIZE)
  qed
  with assms(1) show ?thesis
    by (simp add: alloc_def Let_def)
qed

lemma alloc_cases:
  assumes inv: "Arena_inv a" and al: "alloc s a = Some (p, a')"
  obtains
    (same) "chunks a \<noteq> []" "unat (index a) + unat (currSize s) < 10000"
      "chunks a' = chunks a" "unat (index a') = unat (index a) + unat (currSize s)"
      "p = Ptr (last (chunks a)) (int (unat (index a)))"
  | (new) "chunks a = [] \<or> 10000 \<le> unat (index a) + unat (currSize s)"
      "chunks a' = chunks a @ [length (chunks a)]" "unat (index a') = unat (currSize s)"
      "p = Ptr (length (chunks a)) 0"
proof -
  have c: "currSize s < CHUNK_SIZE"
    using al by (simp add: alloc_def split: if_splits)
  then have c': "unat (currSize s) < 10000"
    by (simp add: currSize_less)
  show thesis
  proof (cases "chunks a \<noteq> [] \<and> unat (index a) + unat (currSize s) < 10000")
    case True
    then have i: "unat (index a) < 10000"
      by linarith
    from True i c have "alloc s a =
        Some (Ptr (last (chunks a)) (int (unat (index a))),
          a\<lparr>index := ucast (scast (index a) + currSize s)\<rparr>)"
      by (simp add: alloc_same_chunk)
    moreover have "unat (ucast (scast (index a) + currSize s) :: c_int) =
        unat (index a) + unat (currSize s)"
      using i c' by (rule unat_cursor_add)
    ultimately show thesis
      using al True by (intro same) auto
  next
    case False
    then have "chunks a = [] \<or> (unat (index a) < 10000 \<and> 10000 \<le> unat (index a) + unat (currSize s))"
      using inv by (auto simp: Arena_inv_def)
    with c have "alloc s a =
        Some (Ptr (new_chunk a) 0, a\<lparr>chunks := chunks a @ [new_chunk a], index := ucast (currSize s)\<rparr>)"
      by (rule alloc_new_chunk)
    moreover have "unat (ucast (currSize s) :: c_int) = unat (currSize s)"
      using c' by (simp add: unat_ucast_small)
    ultimately show thesis
      using al False by (intro new) (auto simp: new_chunk_def)
  qed
qed

lemma alloc_inv:
  assumes inv: "Arena_inv a" and sz: "sizeof_value s" and al: "alloc s a = Some (p, a')"
  shows "Arena_inv a'"
proof -
  note b = currSize_bounds [OF sz] alloc_Some_less [OF al]
  from inv al show ?thesis
  proof (cases rule: alloc_cases)
    case same
    with inv b show ?thesis
      by (simp add: Arena_inv_def)
  next
    case new
    have "[0..<length (chunks a)] @ [length (chunks a)] = [0..<Suc (length (chunks a))]"
      by simp
    with inv new b show ?thesis
      by (simp add: Arena_inv_def)
  qed
qed

lemma Arena_new_inv: "Arena_inv (Arena_new g)"
  by (simp add: Arena_inv_def Arena_new_def)

lemma reachable_inv: "reachable a \<Longrightarrow> Arena_inv a"
  by (induction rule: reachable.induct) (auto intro: Arena_new_inv alloc_inv)

lemma last_chunk:
  assumes "Arena_inv a" "chunks a \<noteq> []"
  shows "last (chunks a) = length (chunks a) - 1"
proof -
  from assms have "chunks a = [0..<length (chunks a)]" "0 < length (chunks a)"
    by (simp_all add: Arena_inv_def)
  then have "last (chunks a) = last [0..<length (chunks a)]"
    by simp
  also have "\<dots> = length (chunks a) - 1"
    using \<open>0 < length (chunks a)\<close> by (simp add: last_upt)
  finally show ?thesis .
qed

lemma alloc_region:
  assumes inv: "Arena_inv a" and sz: "sizeof_value s" and al: "alloc s a = Some (p, a')"
  shows "region p (unat (currSize s)) \<inter> claimed a = {}"
    and "region p (unat (currSize s)) \<subseteq> claimed a'"
    and "claimed a \<subseteq> claimed a'"
proof -
  define i c i' where "i = unat (index a)" and "c = unat (currSize s)" and "i' = unat (index a')"
  from inv al
  have "region p c \<inter> claimed a = {} \<and> region p c \<subseteq> claimed a' \<and> claimed a \<subseteq> claimed a'"
  proof (cases rule: alloc_cases)
    case same
    have "i' = i + c"
      using same(4) by (simp only: i_def c_def i'_def)
    moreover have "p = Ptr (length (chunks a) - 1) (int i)"
      using same(5) last_chunk [OF inv same(1)] by (simp only: i_def)
    ultimately show ?thesis
      using same(1,3)
      unfolding region_def claimed_def i_def [symmetric] i'_def [symmetric]
      by auto
  next
    case new
    have "length (chunks a) = 0 \<or> i < 10000"
      using inv by (auto simp: Arena_inv_def i_def)
    then have "length (chunks a) = 0 \<or> int i < 10000"
      by linarith
    moreover have "i' = c"
      using new(3) by (simp only: i'_def c_def)
    ultimately show ?thesis
      using new(2,4)
      unfolding region_def claimed_def i_def [symmetric] i'_def [symmetric]
      by (auto split: if_splits)
  qed
  then show "region p (unat (currSize s)) \<inter> claimed a = {}"
    and "region p (unat (currSize s)) \<subseteq> claimed a'"
    and "claimed a \<subseteq> claimed a'"
    by (simp_all only: c_def)
qed

lemma allocs_regions:
  assumes "Arena_inv a" "\<forall>s\<in>set ss. sizeof_value s" "allocs ss a = Some (ps, a')"
  shows "Arena_inv a' \<and> length ps = length ss \<and> claimed a \<subseteq> claimed a' \<and>
    (\<forall>i<length ss. region (ps ! i) (unat (currSize (ss ! i))) \<subseteq> claimed a' - claimed a) \<and>
    (\<forall>i<length ss. \<forall>j<length ss. i \<noteq> j \<longrightarrow>
       region (ps ! i) (unat (currSize (ss ! i))) \<inter> region (ps ! j) (unat (currSize (ss ! j))) = {})"
  using assms
proof (induction ss arbitrary: a ps)
  case Nil
  then show ?case by simp
next
  case (Cons s ss)
  from Cons.prems(3) obtain p a1 qs where
    al: "alloc s a = Some (p, a1)" and rest: "allocs ss a1 = Some (qs, a')" and ps: "ps = p # qs"
    by (auto split: option.splits)
  from Cons.prems have sz: "sizeof_value s" and szs: "\<forall>s\<in>set ss. sizeof_value s"
    by simp_all
  have inv1: "Arena_inv a1"
    using Cons.prems(1) sz al by (rule alloc_inv)
  note r = alloc_region [OF Cons.prems(1) sz al]
  note ih = Cons.IH [OF inv1 szs rest]
  let ?R = "\<lambda>i. region ((p # qs) ! i) (unat (currSize ((s # ss) ! i)))"
  let ?Q = "\<lambda>i. region (qs ! i) (unat (currSize (ss ! i)))"
  have sub: "\<forall>i<length (s # ss). ?R i \<subseteq> claimed a' - claimed a"
  proof (intro allI impI)
    fix i assume "i < length (s # ss)"
    show "?R i \<subseteq> claimed a' - claimed a"
    proof (cases i)
      case 0
      with r ih show ?thesis by auto
    next
      case (Suc k)
      with \<open>i < length (s # ss)\<close> have "?Q k \<subseteq> claimed a' - claimed a1"
        using ih by simp
      with r(3) Suc show ?thesis by auto
    qed
  qed
  have hd_tl: "?R 0 \<inter> ?Q k = {}" if "k < length ss" for k
  proof -
    from that ih have "?Q k \<subseteq> claimed a' - claimed a1" by simp
    with r(2) show ?thesis by auto
  qed
  have dis: "\<forall>i<length (s # ss). \<forall>j<length (s # ss). i \<noteq> j \<longrightarrow> ?R i \<inter> ?R j = {}"
  proof (intro allI impI)
    fix i j assume ij: "i < length (s # ss)" "j < length (s # ss)" "i \<noteq> j"
    show "?R i \<inter> ?R j = {}"
    proof (cases i)
      case 0
      with ij obtain k where "j = Suc k" "k < length ss"
        by (cases j) auto
      with 0 hd_tl [of k] show ?thesis by simp
    next
      case (Suc k)
      show ?thesis
      proof (cases j)
        case 0
        with Suc ij hd_tl [of k] show ?thesis by auto
      next
        case (Suc l)
        with \<open>i = Suc k\<close> ij ih show ?thesis by simp
      qed
    qed
  qed
  from ih r(3) have "Arena_inv a'" "length ps = length (s # ss)" "claimed a \<subseteq> claimed a'"
    using ps by auto
  with sub dis ps show ?case
    by simp
qed

subsection \<open>Sequences of allocations\<close>

lemma alloc_chunks_grow:
  assumes "alloc s a = Some (p, a')"
  shows "chunks a' = chunks a \<or> chunks a' = chunks a @ [new_chunk a]"
  using assms by (auto simp: alloc_def Let_def split: if_splits)

lemma allocs_chunks_grow:
  "allocs ss a = Some (ps, a') \<Longrightarrow> \<exists>cs. chunks a' = chunks a @ cs"
proof (induction ss arbitrary: a ps)
  case Nil
  then show ?case by simp
next
  case (Cons s ss)
  from Cons.prems obtain p a1 qs where
    al: "alloc s a = Some (p, a1)" and rest: "allocs ss a1 = Some (qs, a')"
    by (auto split: option.splits)
  from Cons.IH [OF rest] obtain cs where "chunks a' = chunks a1 @ cs" ..
  with alloc_chunks_grow [OF al] show ?case by auto
qed

lemma claimed_within:
  assumes "Arena_inv a"
  shows "claimed a \<subseteq> set (chunks a) \<times> {0..<uint CHUNK_SIZE}"
proof -
  from assms have c: "set (chunks a) = {0..<length (chunks a)}"
    by (metis Arena_inv_def set_upt)
  have "chunks a = [] \<or> int (unat (index a)) < 10000"
    using assms by (auto simp: Arena_inv_def simp del: of_nat_unat)
  moreover have "uint CHUNK_SIZE = 10000"
    by (simp add: CHUNK_SIZE_def)
  ultimately show ?thesis
    unfolding claimed_def c
    by (auto split: if_splits)
qed

lemma cursor_less:
  "Arena_inv a \<Longrightarrow> cursor a < 10000"
  by (simp add: Arena_inv_def cursor_def)

lemma allocs_cursor:
  assumes "Arena_inv a" "\<forall>s\<in>set ss. sizeof_value s" "allocs ss a = Some (ps, a')"
    "length (chunks a') \<le> max 1 (length (chunks a))"
  shows "cursor a' = cursor a + sum_list (map (\<lambda>s. unat (currSize s)) ss)"
  using assms
proof (induction ss arbitrary: a ps)
  case Nil
  then show ?case by simp
next
  case (Cons s ss)
  from Cons.prems(3) obtain p a1 qs where
    al: "alloc s a = Some (p, a1)" and rest: "allocs ss a1 = Some (qs, a')"
    by (auto split: option.splits)
  from Cons.prems have sz: "sizeof_value s" and szs: "\<forall>s\<in>set ss. sizeof_value s"
    by simp_all
  have inv1: "Arena_inv a1"
    using Cons.prems(1) sz al by (rule alloc_inv)
  from allocs_chunks_grow [OF rest] have mono: "length (chunks a1) \<le> length (chunks a')"
    by auto
  from Cons.prems(1) al
  have step: "cursor a1 = cursor a + unat (currSize s) \<and> length (chunks a') \<le> max 1 (length (chunks a1))"
  proof (cases rule: alloc_cases)
    case same
    with Cons.prems(4) show ?thesis
      by (simp add: cursor_def)
  next
    case new
    with mono Cons.prems(4) have "chunks a = []"
      by (cases "chunks a") auto
    with new Cons.prems(4) show ?thesis
      by (simp add: cursor_def)
  qed
  with Cons.IH [OF inv1 szs rest] show ?case
    by simp
qed

lemma region_nonempty:
  "0 < n \<Longrightarrow> (block p, byte_offset p) \<in> region p n"
  by (simp add: region_def)

lemma region_mono:
  "m \<le> n \<Longrightarrow> region p m \<subseteq> region p n"
  by (auto simp: region_def)

text \<open>
  Claim C6. From any arena a program can have, a sequence of allocations whose rounded
  sizes sum to more than the chunk size creates at least one new chunk, and leaves at
  least two chunks; the returned pointers are pairwise distinct. The \<^verbatim>\<open>sizeof(T)\<close>
  bytes at any two of them are disjoint, and so are the rounded blocks; each object lies
  inside its rounded block, and that inside a chunk the arena still holds after the whole
  sequence.
\<close>

theorem Arena_allocs_separate:
  assumes "reachable a" and "\<forall>s\<in>set ss. sizeof_value s" and "allocs ss a = Some (ps, a')"
    and "unat CHUNK_SIZE < sum_list (map (\<lambda>s. unat (currSize s)) ss)"
  shows "length (chunks a) < length (chunks a') \<and> 2 \<le> length (chunks a') \<and>
    length ps = length ss \<and> distinct ps \<and>
    (\<forall>i<length ss. \<forall>j<length ss. i \<noteq> j \<longrightarrow>
       region (ps ! i) (unat (ss ! i)) \<inter> region (ps ! j) (unat (ss ! j)) = {}) \<and>
    (\<forall>i<length ss. \<forall>j<length ss. i \<noteq> j \<longrightarrow>
       region (ps ! i) (unat (currSize (ss ! i))) \<inter> region (ps ! j) (unat (currSize (ss ! j))) = {}) \<and>
    (\<forall>i<length ss. region (ps ! i) (unat (ss ! i)) \<subseteq> region (ps ! i) (unat (currSize (ss ! i))) \<and>
       region (ps ! i) (unat (currSize (ss ! i))) \<subseteq> set (chunks a') \<times> {0..<uint CHUNK_SIZE})"
proof -
  let ?R = "\<lambda>i. region (ps ! i) (unat (currSize (ss ! i)))"
  let ?S = "\<lambda>i. region (ps ! i) (unat (ss ! i))"
  have inv: "Arena_inv a"
    using assms(1) by (rule reachable_inv)
  note r = allocs_regions [OF inv assms(2,3)]
  then have inv': "Arena_inv a'" and len: "length ps = length ss"
    and sub: "\<forall>i<length ss. ?R i \<subseteq> claimed a' - claimed a"
    and dis: "\<forall>i<length ss. \<forall>j<length ss. i \<noteq> j \<longrightarrow> ?R i \<inter> ?R j = {}"
    by simp_all
  have "\<not> length (chunks a') \<le> max 1 (length (chunks a))"
  proof
    assume "length (chunks a') \<le> max 1 (length (chunks a))"
    with inv assms(2,3) have "cursor a' = cursor a + sum_list (map (\<lambda>s. unat (currSize s)) ss)"
      by (rule allocs_cursor)
    with cursor_less [OF inv'] assms(4) show False
      by (simp add: unat_CHUNK_SIZE)
  qed
  then have more: "length (chunks a) < length (chunks a')" "2 \<le> length (chunks a')"
    by linarith+
  have obj: "?S i \<subseteq> ?R i" if "i < length ss" for i
  proof -
    from that assms(2) have "sizeof_value (ss ! i)"
      by simp
    then have "unat (ss ! i) \<le> unat (currSize (ss ! i))"
      by (rule currSize_bounds)
    then show ?thesis
      by (rule region_mono)
  qed
  have dis_obj: "\<forall>i<length ss. \<forall>j<length ss. i \<noteq> j \<longrightarrow> ?S i \<inter> ?S j = {}"
  proof (intro allI impI)
    fix i j assume ij: "i < length ss" "j < length ss" "i \<noteq> j"
    with dis have "?R i \<inter> ?R j = {}"
      by simp
    with obj [OF ij(1)] obj [OF ij(2)] show "?S i \<inter> ?S j = {}"
      by blast
  qed
  have "distinct ps"
    unfolding distinct_conv_nth
  proof (intro allI impI)
    fix i j assume ij: "i < length ps" "j < length ps" "i \<noteq> j"
    show "ps ! i \<noteq> ps ! j"
    proof
      assume eq: "ps ! i = ps ! j"
      from ij len assms(2) have "sizeof_value (ss ! i)" "sizeof_value (ss ! j)"
        by simp_all
      then have "0 < unat (currSize (ss ! i))" "0 < unat (currSize (ss ! j))"
        by (simp_all add: currSize_bounds)
      then have "(block (ps ! i), byte_offset (ps ! i)) \<in> ?R i"
        "(block (ps ! j), byte_offset (ps ! j)) \<in> ?R j"
        by (simp_all add: region_nonempty)
      with eq have "(block (ps ! i), byte_offset (ps ! i)) \<in> ?R i \<inter> ?R j"
        by simp
      with dis ij len show False
        by auto
    qed
  qed
  moreover have "\<forall>i<length ss. ?S i \<subseteq> ?R i \<and> ?R i \<subseteq> set (chunks a') \<times> {0..<uint CHUNK_SIZE}"
    using sub claimed_within [OF inv'] obj by blast
  ultimately show ?thesis
    using more len dis dis_obj by simp
qed

text \<open>Three allocations of 3999 bytes: the third one opens the second chunk.\<close>

lemma currSize_3999: "currSize 3999 = 4000"
  by (simp add: currSize_def)

lemma alloc_ex1:
  "alloc 3999 (Arena_new 0) = Some (Ptr 0 0, \<lparr>chunks = [0], index = 4000\<rparr>)"
  by (simp add: alloc_def currSize_3999 CHUNK_SIZE_def Arena_new_def new_chunk_def)

lemma alloc_ex2:
  "alloc 3999 \<lparr>chunks = [0], index = 4000\<rparr> =
     Some (Ptr 0 4000, \<lparr>chunks = [0], index = 8000\<rparr>)"
  by (simp add: alloc_def currSize_3999 CHUNK_SIZE_def new_chunk_def)

lemma alloc_ex3:
  "alloc 3999 \<lparr>chunks = [0], index = 8000\<rparr> =
     Some (Ptr 1 0, \<lparr>chunks = [0, 1], index = 4000\<rparr>)"
  by (simp add: alloc_def currSize_3999 CHUNK_SIZE_def new_chunk_def)

theorem Arena_allocs_separate_witness:
  "allocs [3999, 3999, 3999] (Arena_new 0) =
     Some ([Ptr 0 0, Ptr 0 4000, Ptr 1 0], \<lparr>chunks = [0, 1], index = 4000\<rparr>) \<and>
   length (chunks (Arena_new 0)) < length (chunks \<lparr>chunks = [0, 1], index = 4000\<rparr>) \<and>
   2 \<le> length (chunks \<lparr>chunks = [0, 1], index = 4000\<rparr>) \<and>
   distinct [Ptr 0 0, Ptr 0 4000, Ptr 1 0] \<and>
   region (Ptr 0 0) 3999 \<inter> region (Ptr 0 4000) 3999 = {} \<and>
   region (Ptr 0 0) 3999 \<inter> region (Ptr 1 0) 3999 = {} \<and>
   region (Ptr 0 4000) 3999 \<inter> region (Ptr 1 0) 3999 = {} \<and>
   region (Ptr 0 0) 4000 \<inter> region (Ptr 0 4000) 4000 = {} \<and>
   region (Ptr 0 0) 4000 \<inter> region (Ptr 1 0) 4000 = {} \<and>
   region (Ptr 0 4000) 4000 \<inter> region (Ptr 1 0) 4000 = {}"
proof -
  let ?ss = "[3999, 3999, 3999] :: size_t list"
  let ?ps = "[Ptr 0 0, Ptr 0 4000, Ptr 1 0]"
  let ?a' = "\<lparr>chunks = [0, 1], index = 4000\<rparr>"
  have h1: "reachable (Arena_new 0)"
    by (rule reachable_new)
  have h2: "\<forall>s\<in>set ?ss. sizeof_value s"
    by (simp add: sizeof_value_def)
  have h3: "allocs ?ss (Arena_new 0) = Some (?ps, ?a')"
    by (simp add: alloc_ex1 alloc_ex2 alloc_ex3)
  have h4: "unat CHUNK_SIZE < sum_list (map (\<lambda>s. unat (currSize s)) ?ss)"
    by (simp add: currSize_3999 CHUNK_SIZE_def)
  note t = Arena_allocs_separate [OF h1 h2 h3 h4]
  from t have d: "\<forall>i<3. \<forall>j<3. i \<noteq> j \<longrightarrow>
      region (?ps ! i) (unat (?ss ! i)) \<inter> region (?ps ! j) (unat (?ss ! j)) = {}"
    and e: "\<forall>i<3. \<forall>j<3. i \<noteq> j \<longrightarrow>
      region (?ps ! i) (unat (currSize (?ss ! i))) \<inter>
      region (?ps ! j) (unat (currSize (?ss ! j))) = {}"
    by simp_all
  have "region (Ptr 0 0) 3999 \<inter> region (Ptr 0 4000) 3999 = {}"
    "region (Ptr 0 0) 3999 \<inter> region (Ptr 1 0) 3999 = {}"
    "region (Ptr 0 4000) 3999 \<inter> region (Ptr 1 0) 3999 = {}"
    using d [rule_format, of 0 1] d [rule_format, of 0 2] d [rule_format, of 1 2] by simp_all
  moreover have "region (Ptr 0 0) 4000 \<inter> region (Ptr 0 4000) 4000 = {}"
    "region (Ptr 0 0) 4000 \<inter> region (Ptr 1 0) 4000 = {}"
    "region (Ptr 0 4000) 4000 \<inter> region (Ptr 1 0) 4000 = {}"
    using e [rule_format, of 0 1] e [rule_format, of 0 2] e [rule_format, of 1 2]
    by (simp_all add: currSize_3999)
  ultimately show ?thesis
    using t h3 by simp
qed

subsection \<open>Construction misuse\<close>

text \<open>
  Claim C2. Construction misuse aborts: \<^verbatim>\<open>Arena::alloc<T>\<close> with \<^verbatim>\<open>sizeof(T)\<close> larger
  than the chunk size fails its assertion whatever the arena, the numeric constructor of
  \<^verbatim>\<open>Var\<close> fails its assertion on every value outside the open interval from 0 to
  \<^verbatim>\<open>MAX_NUM\<close>, and the name constructor fails its assertion on every name whose address
  is not above \<^verbatim>\<open>MAX_NUM\<close>. None of them returns.
\<close>

theorem construction_misuse_aborts:
  "(sizeof_value s \<and> CHUNK_SIZE < s \<longrightarrow> alloc s a = None) \<and>
   (\<not> (0 < n \<and> n < MAX_NUM) \<longrightarrow> Var_num mem n = None) \<and>
   (\<not> MAX_NUM < nm \<longrightarrow> Var_str nm = None)"
proof (intro conjI impI)
  assume h: "sizeof_value s \<and> CHUNK_SIZE < s"
  then have "10000 < unat s"
    by (simp add: word_less_nat_alt unat_CHUNK_SIZE)
  moreover have "unat s \<le> unat (currSize s)"
    using h by (simp add: currSize_bounds)
  ultimately have "\<not> unat (currSize s) < 10000"
    by linarith
  then show "alloc s a = None"
    by (simp add: alloc_def currSize_less)
next
  assume "\<not> (0 < n \<and> n < MAX_NUM)"
  then show "Var_num mem n = None"
    by (simp add: Var_num_def)
next
  assume "\<not> MAX_NUM < nm"
  then show "Var_str nm = None"
    by (simp add: Var_str_def)
qed

theorem construction_misuse_aborts_witness:
  "alloc 10001 (Arena_new 0) = None \<and> Var_num 0 0 = None \<and> Var_num 0 1000000 = None \<and>
   Var_str 1000000 = None"
  using construction_misuse_aborts [of 10001 "Arena_new 0" 0 0 1000000]
    construction_misuse_aborts [of 10001 "Arena_new 0" 1000000 0 1000000]
  by (simp add: sizeof_value_def CHUNK_SIZE_def MAX_NUM_def)

subsection \<open>One allocation\<close>


text \<open>
  Claim C9. After an allocation that returns, from any arena a program can have, the
  cursor is strictly between 0 and \<^verbatim>\<open>CHUNK_SIZE\<close>; the returned block starts at a
  non-negative offset of the last chunk, ends at the cursor, and so lies inside that one
  chunk and never reaches its last byte. A request that would fill the current chunk
  exactly opens a new chunk and is served from its start.
\<close>

theorem Arena_cursor_invariant:
  assumes "reachable a" and "sizeof_value s" and "alloc s a = Some (p, a')"
  shows "0 < sint (index a') \<and> sint (index a') < uint CHUNK_SIZE \<and>
    block p = last (chunks a') \<and> 0 \<le> byte_offset p \<and>
    byte_offset p + uint (currSize s) = sint (index a') \<and>
    region p (unat (currSize s)) \<subseteq> {last (chunks a')} \<times> {0..<uint CHUNK_SIZE} \<and>
    (chunks a \<noteq> [] \<and> scast (index a) + currSize s = CHUNK_SIZE \<longrightarrow>
       chunks a' = chunks a @ [new_chunk a] \<and> p = Ptr (new_chunk a) 0)"
proof -
  have inv: "Arena_inv a"
    using assms(1) by (rule reachable_inv)
  have inv': "Arena_inv a'"
    using inv assms(2,3) by (rule alloc_inv)
  define i c i' where "i = unat (index a)" and "c = unat (currSize s)" and "i' = unat (index a')"
  from inv assms(3) have ne': "chunks a' \<noteq> []"
    by (cases rule: alloc_cases) auto
  with inv' have i': "0 < i'" "i' < 10000"
    by (simp_all add: Arena_inv_def i'_def)
  then have s': "sint (index a') = int i'"
    by (simp add: sint_small i'_def del: of_nat_unat)
  have cs: "uint CHUNK_SIZE = 10000"
    by (simp add: CHUNK_SIZE_def)
  have uc: "uint (currSize s) = int c"
    by (simp add: c_def)
  from inv assms(3)
  have pos: "block p = last (chunks a') \<and> 0 \<le> byte_offset p \<and> byte_offset p + int c = int i' \<and>
    (chunks a \<noteq> [] \<and> i + c = 10000 \<longrightarrow> chunks a' = chunks a @ [new_chunk a] \<and> p = Ptr (new_chunk a) 0)"
  proof (cases rule: alloc_cases)
    case same
    then show ?thesis
      by (simp add: i_def c_def i'_def del: of_nat_unat)
  next
    case new
    then show ?thesis
      by (simp add: i_def c_def i'_def new_chunk_def del: of_nat_unat)
  qed
  have exact: "i + c = 10000" if "chunks a \<noteq> []" "scast (index a) + currSize s = CHUNK_SIZE"
  proof -
    from that(1) inv have "unat (index a) < 10000"
      by (simp add: Arena_inv_def)
    moreover have "unat (currSize s) < 10000"
      using assms(3) by (rule alloc_Some_less)
    ultimately have "unat (scast (index a) + currSize s) = i + c"
      unfolding i_def c_def by (rule unat_cursor_add)
    with that(2) show ?thesis
      by (simp add: unat_CHUNK_SIZE)
  qed
  have "region p c \<subseteq> {last (chunks a')} \<times> {0..<10000}"
    using pos i' by (auto simp: region_def)
  with pos exact i' show ?thesis
    unfolding s' cs uc c_def [symmetric]
    by auto
qed


text \<open>Two allocations of 5000 bytes: the second would fill the first chunk exactly.\<close>

lemma currSize_5000: "currSize 5000 = 5000"
  by (simp add: currSize_def)

lemma alloc_ex4:
  "alloc 5000 (Arena_new 0) = Some (Ptr 0 0, \<lparr>chunks = [0], index = 5000\<rparr>)"
  by (simp add: alloc_def currSize_5000 CHUNK_SIZE_def Arena_new_def new_chunk_def)

lemma alloc_ex5:
  "alloc 5000 \<lparr>chunks = [0], index = 5000\<rparr> = Some (Ptr 1 0, \<lparr>chunks = [0, 1], index = 5000\<rparr>)"
  by (simp add: alloc_def currSize_5000 CHUNK_SIZE_def new_chunk_def)

theorem Arena_cursor_invariant_witness:
  "alloc 5000 (Arena_new 0) = Some (Ptr 0 0, \<lparr>chunks = [0], index = 5000\<rparr>) \<and>
   scast (index \<lparr>chunks = [0], index = 5000\<rparr>) + currSize 5000 = CHUNK_SIZE \<and>
   alloc 5000 \<lparr>chunks = [0], index = 5000\<rparr> = Some (Ptr 1 0, \<lparr>chunks = [0, 1], index = 5000\<rparr>) \<and>
   0 < sint (index \<lparr>chunks = [0, 1], index = 5000\<rparr>) \<and>
   sint (index \<lparr>chunks = [0, 1], index = 5000\<rparr>) < uint CHUNK_SIZE \<and>
   region (Ptr 1 0) (unat (currSize 5000)) \<subseteq> {1} \<times> {0..<uint CHUNK_SIZE}"
proof -
  have h1: "reachable \<lparr>chunks = [0], index = 5000\<rparr>"
  proof (rule reachable_alloc)
    show "reachable (Arena_new 0)" by (rule reachable_new)
    show "sizeof_value 5000" by (simp add: sizeof_value_def)
    show "alloc 5000 (Arena_new 0) = Some (Ptr 0 0, \<lparr>chunks = [0], index = 5000\<rparr>)"
      by (rule alloc_ex4)
  qed
  have h2: "sizeof_value 5000"
    by (simp add: sizeof_value_def)
  have e: "scast (index \<lparr>chunks = [0], index = 5000\<rparr>) + currSize 5000 = CHUNK_SIZE"
    by (simp add: currSize_5000 CHUNK_SIZE_def)
  from Arena_cursor_invariant [OF h1 h2 alloc_ex5] e alloc_ex4 alloc_ex5 show ?thesis
    by (simp add: new_chunk_def)
qed

subsection \<open>Size and alignment of the storage\<close>





subsection \<open>What the constructors write\<close>

lemma num_write_num: "num \<lparr>bits = write_num mem n\<rparr> = n"
proof -
  have "ucast (write_num mem n) = n"
    unfolding write_num_def by (rule bit_word_eqI) (auto simp: bit_simps)
  then show ?thesis
    by (simp add: num_def)
qed

lemma write_num_inject:
  assumes "write_num mem n = write_num mem' n'"
  shows "n = n'"
  using num_write_num [of mem n] num_write_num [of mem' n'] assms by simp

lemma Var_constructors_read_back:
  "(is_null (Var_null mem) \<and> \<not> is_numeric (Var_null mem)) \<and>
   (Var_num mem n = Some v \<longrightarrow>
      0 < n \<and> n < MAX_NUM \<and> num v = n \<and> is_numeric v \<and> \<not> is_null v) \<and>
   (Var_str s = Some w \<longrightarrow> MAX_NUM < s \<and> str w = s \<and> is_named w)"
  by (auto simp: Var_null_def Var_num_def Var_str_def is_null_def is_numeric_def is_named_def
      num_write_num str_def split: if_splits)

subsection \<open>The three kinds of identifier\<close>

text \<open>
  Claim C10 fails on the union of \<^verbatim>\<open>Var\<close>: \<^verbatim>\<open>num\<close> is four of the eight bytes that
  \<^verbatim>\<open>str\<close> is. The name constructor accepts the address \<open>0x100000005\<close>, and the
  identifier reads as named and as numeric (5); it accepts \<open>0x100000000\<close>, and the
  identifier reads as named and as null. The numeric constructor, given 7 in storage whose
  other four bytes are not zero, makes an identifier that reads as numeric and as named,
  and the default constructor there one that reads as null and as named.
\<close>

theorem Var_reads_as_two_kinds:
  "Var_str 0x100000005 = Some \<lparr>bits = 0x100000005\<rparr> \<and>
   is_named \<lparr>bits = 0x100000005\<rparr> \<and> is_numeric \<lparr>bits = 0x100000005\<rparr> \<and>
   Var_str 0x100000000 = Some \<lparr>bits = 0x100000000\<rparr> \<and>
   is_named \<lparr>bits = 0x100000000\<rparr> \<and> is_null \<lparr>bits = 0x100000000\<rparr> \<and>
   Var_num 0xFFFFFFFF00000000 7 = Some \<lparr>bits = 0xFFFFFFFF00000007\<rparr> \<and>
   is_numeric \<lparr>bits = 0xFFFFFFFF00000007\<rparr> \<and> is_named \<lparr>bits = 0xFFFFFFFF00000007\<rparr> \<and>
   Var_null 0xFFFFFFFF00000000 = \<lparr>bits = 0xFFFFFFFF00000000\<rparr> \<and>
   is_null \<lparr>bits = 0xFFFFFFFF00000000\<rparr> \<and> is_named \<lparr>bits = 0xFFFFFFFF00000000\<rparr>"
  by (simp add: Var_str_def Var_num_def Var_null_def write_num_def mask_eq_exp_minus_1
      is_named_def is_numeric_def is_null_def num_def str_def MAX_NUM_def)

subsection \<open>Equality of identifiers\<close>

lemma Var_eq_same_mode:
  assumes "0 < v" "v < MAX_NUM" "0 < v'" "v' < MAX_NUM" "MAX_NUM < n"
  shows "\<exists>a a' b. Var_num mem v = Some a \<and> Var_num mem' v' = Some a' \<and> Var_str n = Some b \<and>
    Var_eq a a \<and> Var_eq b b \<and> (Var_eq a a' \<longleftrightarrow> v = v')"
  using assms
  by (auto simp: Var_num_def Var_str_def Var_eq_def is_numeric_def is_named_def num_write_num
      str_def dest: write_num_inject)

text \<open>
  Claim C1 fails on the union of \<^verbatim>\<open>Var\<close>, with the equality of identifiers modelled
  from the spec: the numeric identifier 5 and the identifier of the name at address
  \<open>0x100000005\<close> are equal, in both orders, since the name reads as the number 5; and
  the identifiers of the two different names at \<open>0x100000005\<close> and \<open>0x200000005\<close>
  are equal.
\<close>

theorem Var_eq_crosses_modes:
  "Var_num 0 5 = Some \<lparr>bits = 5\<rparr> \<and> Var_str 0x100000005 = Some \<lparr>bits = 0x100000005\<rparr> \<and>
   Var_eq \<lparr>bits = 5\<rparr> \<lparr>bits = 0x100000005\<rparr> \<and> Var_eq \<lparr>bits = 0x100000005\<rparr> \<lparr>bits = 5\<rparr> \<and>
   Var_str 0x200000005 = Some \<lparr>bits = 0x200000005\<rparr> \<and>
   Var_eq \<lparr>bits = 0x100000005\<rparr> \<lparr>bits = 0x200000005\<rparr>"
  by (simp add: Var_str_def Var_num_def write_num_def Var_eq_def
      is_named_def is_numeric_def num_def str_def MAX_NUM_def)

subsection \<open>Literals\<close>

lemma Literal_only_type: "(l :: Literal) = \<lparr>Literal.type = Literal.type l\<rparr>"
  by simp

text \<open>
  Claim C3 fails on \<^verbatim>\<open>struct Literal\<close>: a \<^verbatim>\<open>Literal\<close> is its \<^verbatim>\<open>type\<close> and nothing
  else, so there is no way to write a 32-bit payload into literals of type \<^verbatim>\<open>i32\<close>, or
  into \<^verbatim>\<open>Const\<close> nodes with such a literal, and read it back.
\<close>

theorem Literal_stores_no_payload:
  "\<not> (\<exists>(wr :: 32 word \<Rightarrow> Literal) rd. \<forall>x. Literal.type (wr x) = i32 \<and> rd (wr x) = x) \<and>
   \<not> (\<exists>(wr :: 32 word \<Rightarrow> Const) rd. \<forall>x. Literal.type (Const.value (wr x)) = i32 \<and> rd (wr x) = x)"
proof (intro conjI notI)
  assume "\<exists>(wr :: 32 word \<Rightarrow> Literal) rd. \<forall>x. Literal.type (wr x) = i32 \<and> rd (wr x) = x"
  then obtain wr :: "32 word \<Rightarrow> Literal" and rd :: "Literal \<Rightarrow> 32 word"
    where w: "\<And>x. Literal.type (wr x) = i32" and r: "\<And>x. rd (wr x) = x"
    by blast
  have "wr 0 = wr 1"
    using w [of 0] w [of 1] Literal_only_type [of "wr 0"] Literal_only_type [of "wr 1"] by simp
  then have "rd (wr 0) = rd (wr 1)"
    by simp
  then show False
    by (simp add: r)
next
  assume "\<exists>(wr :: 32 word \<Rightarrow> Const) rd. \<forall>x. Literal.type (Const.value (wr x)) = i32 \<and> rd (wr x) = x"
  then obtain wr :: "32 word \<Rightarrow> Const" and rd :: "Const \<Rightarrow> 32 word"
    where w: "\<And>x. Literal.type (Const.value (wr x)) = i32" and r: "\<And>x. rd (wr x) = x"
    by blast
  have "Const.value (wr 0) = Const.value (wr 1)"
    using w [of 0] w [of 1] Literal_only_type [of "Const.value (wr 0)"]
      Literal_only_type [of "Const.value (wr 1)"] by simp
  then have "wr 0 = wr 1"
    by simp
  then have "rd (wr 0) = rd (wr 1)"
    by simp
  then show False
    by (simp add: r)
qed

subsection \<open>Minting identifiers\<close>

lemma unat_MAX_NUM: "unat (MAX_NUM :: unsigned) = 1000000"
  by (simp add: MAX_NUM_def)

lemma Var_num_unat:
  "Var_num mem w =
     (if 0 < unat w \<and> unat w < 1000000 then Some \<lparr>bits = write_num mem w\<rparr> else None)"
  by (simp add: Var_num_def word_less_nat_alt unat_MAX_NUM)

lemma unat_succ_small:
  assumes "unat (w :: unsigned) < 1000000"
  shows "unat (w + 1) = Suc (unat w)"
proof -
  have "unat w + 1 < 2 ^ 32"
    using assms by simp
  then show ?thesis
    by (simp add: unat_word_ariths)
qed

lemma mint_counter:
  assumes "0 < unat (nextVar m)" "unat (nextVar m) < 1000000"
  shows "mint mem m =
    Some (\<lparr>bits = write_num mem (nextVar m)\<rparr>, m\<lparr>nextVar := nextVar m + 1\<rparr>)"
  using assms by (simp add: mint_def Var_num_unat)

lemma mints_counter:
  assumes "0 < unat (nextVar m)" "unat (nextVar m) + length mems \<le> 1000000"
  shows "\<exists>vs m'. mints mems m = Some (vs, m') \<and>
    map (\<lambda>v. unat (num v)) vs = [unat (nextVar m) ..< unat (nextVar m) + length mems] \<and>
    unat (nextVar m') = unat (nextVar m) + length mems"
  using assms
proof (induction mems arbitrary: m)
  case Nil
  then show ?case by simp
next
  case (Cons mem mems)
  let ?m1 = "m\<lparr>nextVar := nextVar m + 1\<rparr>"
  from Cons.prems have lt: "unat (nextVar m) < 1000000"
    by simp
  with Cons.prems have mi: "mint mem m = Some (\<lparr>bits = write_num mem (nextVar m)\<rparr>, ?m1)"
    by (simp add: mint_counter)
  have u1: "unat (nextVar ?m1) = Suc (unat (nextVar m))"
    using lt by (simp add: unat_succ_small)
  with Cons.prems have "0 < unat (nextVar ?m1)" "unat (nextVar ?m1) + length mems \<le> 1000000"
    by simp_all
  from Cons.IH [OF this] obtain vs m' where r: "mints mems ?m1 = Some (vs, m')"
    "map (\<lambda>v. unat (num v)) vs = [unat (nextVar ?m1) ..< unat (nextVar ?m1) + length mems]"
    "unat (nextVar m') = unat (nextVar ?m1) + length mems"
    by blast
  have "[unat (nextVar m) ..< unat (nextVar m) + length (mem # mems)] =
      unat (nextVar m) # [Suc (unat (nextVar m)) ..< Suc (unat (nextVar m)) + length mems]"
    by (simp add: upt_rec)
  with mi r u1 show ?case
    by (simp add: num_write_num)
qed

lemma mints_abort:
  assumes "0 < unat (nextVar m)" "unat (nextVar m) \<le> 1000000"
    "1000000 < unat (nextVar m) + length mems"
  shows "mints mems m = None"
  using assms
proof (induction mems arbitrary: m)
  case Nil
  then show ?case by simp
next
  case (Cons mem mems)
  show ?case
  proof (cases "unat (nextVar m) = 1000000")
    case True
    then have "mint mem m = None"
      by (simp add: mint_def Var_num_unat)
    then show ?thesis by simp
  next
    case False
    with Cons.prems have lt: "unat (nextVar m) < 1000000"
      by linarith
    let ?m1 = "m\<lparr>nextVar := nextVar m + 1\<rparr>"
    from lt Cons.prems have mi: "mint mem m = Some (\<lparr>bits = write_num mem (nextVar m)\<rparr>, ?m1)"
      by (simp add: mint_counter)
    have u1: "unat (nextVar ?m1) = Suc (unat (nextVar m))"
      using lt by (simp add: unat_succ_small)
    with Cons.prems lt have "0 < unat (nextVar ?m1)" "unat (nextVar ?m1) \<le> 1000000"
      "1000000 < unat (nextVar ?m1) + length mems"
      by simp_all
    from Cons.IH [OF this] mi show ?thesis
      by simp
  qed
qed

lemma mints_is_numeric:
  "mints mems m = Some (vs, m') \<Longrightarrow> v \<in> set vs \<Longrightarrow> is_numeric v \<and> \<not> is_null v"
proof (induction mems arbitrary: m vs)
  case Nil
  then show ?case by simp
next
  case (Cons mem mems)
  from Cons.prems(1) obtain u m1 us where
    mi: "mint mem m = Some (u, m1)" and rest: "mints mems m1 = Some (us, m')" and vs: "vs = u # us"
    by (auto split: option.splits)
  from mi have "Var_num mem (nextVar m) = Some u"
    by (auto simp: mint_def split: option.splits)
  then have "is_numeric u \<and> \<not> is_null u"
    using Var_constructors_read_back [of mem "nextVar m" u] by simp
  with Cons.IH [OF rest] Cons.prems(2) vs show ?case
    by auto
qed

text \<open>
  Claim C4, as amended. With minting modelled from the spec: for every \<open>n\<close> below
  \<^verbatim>\<open>MAX_NUM\<close>, minting \<open>n\<close> times from a new module, whatever the storage of the new
  identifiers held, returns the identifiers with the values 1, 2, ..., \<open>n\<close> in this
  order, all of them numeric, none null and no two the same, and leaves the counter at
  \<open>n + 1\<close>.
\<close>

theorem mint_counts_up:
  assumes "length mems < unat (MAX_NUM :: unsigned)"
  shows "\<exists>vs m'. mints mems (Module_new g) = Some (vs, m') \<and>
    map (\<lambda>v. unat (num v)) vs = [1 ..< Suc (length mems)] \<and>
    (\<forall>v\<in>set vs. is_numeric v \<and> \<not> is_null v) \<and>
    distinct vs \<and> unat (nextVar m') = Suc (length mems)"
proof -
  have n1: "unat (nextVar (Module_new g)) = 1"
    by (simp add: Module_new_def)
  with assms have "0 < unat (nextVar (Module_new g))"
    "unat (nextVar (Module_new g)) + length mems \<le> 1000000"
    by (simp_all add: unat_MAX_NUM)
  from mints_counter [OF this] n1 obtain vs m' where r: "mints mems (Module_new g) = Some (vs, m')"
    "map (\<lambda>v. unat (num v)) vs = [1 ..< Suc (length mems)]" "unat (nextVar m') = Suc (length mems)"
    by auto
  have "distinct (map (\<lambda>v. unat (num v)) vs)"
    using r(2) by simp
  then have "distinct vs"
    by (simp add: distinct_map)
  moreover have "\<forall>v\<in>set vs. is_numeric v \<and> \<not> is_null v"
    using mints_is_numeric [OF r(1)] by blast
  ultimately show ?thesis
    using r by blast
qed

theorem mint_counts_up_witness:
  "mints [0, 0xFFFFFFFF00000000, 0] (Module_new 0) =
     Some ([\<lparr>bits = 1\<rparr>, \<lparr>bits = 0xFFFFFFFF00000002\<rparr>, \<lparr>bits = 3\<rparr>],
       (Module_new 0)\<lparr>nextVar := 4\<rparr>) \<and>
   map (\<lambda>v. unat (num v)) [\<lparr>bits = 1\<rparr>, \<lparr>bits = 0xFFFFFFFF00000002\<rparr>, \<lparr>bits = 3\<rparr>] =
     [1, 2, 3] \<and>
   distinct [\<lparr>bits = 1 :: 64 word\<rparr>, \<lparr>bits = 0xFFFFFFFF00000002\<rparr>, \<lparr>bits = 3\<rparr>] \<and>
   is_numeric \<lparr>bits = 1\<rparr> \<and> is_numeric \<lparr>bits = 0xFFFFFFFF00000002\<rparr> \<and>
   is_numeric \<lparr>bits = 3\<rparr>"
proof -
  have h: "length [0, 0xFFFFFFFF00000000, 0 :: 64 word] < unat (MAX_NUM :: unsigned)"
    by (simp add: unat_MAX_NUM)
  have e: "mints [0, 0xFFFFFFFF00000000, 0] (Module_new 0) =
      Some ([\<lparr>bits = 1\<rparr>, \<lparr>bits = 0xFFFFFFFF00000002\<rparr>, \<lparr>bits = 3\<rparr>],
        (Module_new 0)\<lparr>nextVar := 4\<rparr>)"
    by (simp add: mint_def Var_num_def write_num_def mask_eq_exp_minus_1 MAX_NUM_def
        Module_new_def)
  have u: "[1 ..< Suc (length [0, 0xFFFFFFFF00000000, 0 :: 64 word])] = [1, 2, 3]"
    by (simp add: upt_rec)
  from mint_counts_up [OF h, of 0] have
    "map (\<lambda>v. unat (num v)) [\<lparr>bits = 1\<rparr>, \<lparr>bits = 0xFFFFFFFF00000002\<rparr>, \<lparr>bits = 3\<rparr>] =
       [1, 2, 3] \<and>
     (\<forall>v\<in>set [\<lparr>bits = 1\<rparr>, \<lparr>bits = 0xFFFFFFFF00000002\<rparr>, \<lparr>bits = 3\<rparr>].
        is_numeric v \<and> \<not> is_null v) \<and>
     distinct [\<lparr>bits = 1 :: 64 word\<rparr>, \<lparr>bits = 0xFFFFFFFF00000002\<rparr>, \<lparr>bits = 3\<rparr>]"
    unfolding e u by simp
  with e show ?thesis
    by simp
qed

text \<open>
  Claim C4 as stated, for every \<open>n\<close>, fails at \<open>n = 1000000\<close>: the last mint would
  make the identifier \<^verbatim>\<open>Var(1000000)\<close>, on which the constructor's assertion fails.
\<close>

theorem mint_every_n_counterexample:
  "mints (replicate 1000000 0) (Module_new 0) = None"
proof -
  have "unat (nextVar (Module_new 0)) = 1"
    by (simp add: Module_new_def)
  then have "0 < unat (nextVar (Module_new 0))" "unat (nextVar (Module_new 0)) \<le> 1000000"
    "1000000 < unat (nextVar (Module_new 0)) + length (replicate 1000000 (0 :: 64 word))"
    by simp_all
  then show ?thesis
    by (rule mints_abort)
qed

subsection \<open>Fields of nodes\<close>

text \<open>
  Claim C8. The \<^verbatim>\<open>Load\<close> of the scenario reads back \<^verbatim>\<open>bytes = 4\<close>,
  \<^verbatim>\<open>signed_ = false\<close>, \<^verbatim>\<open>offset = 8\<close> and the address of its \<^verbatim>\<open>GetLocal\<close> node, whose
  identifier reads 0; the field that was not assigned, \<^verbatim>\<open>align\<close>, is as before. The
  \<^verbatim>\<open>Switch\<close> of the scenario reads back its three cases in the order they were added,
  with the flags true, true, false and with their values and bodies, and its default;
  its label and scrutinee are as before.
\<close>

theorem node_fields_read_back:
  "bytes (Load_example l g) = 4 \<and> signed' (Load_example l g) = False \<and>
   offset (Load_example l g) = 8 \<and> ptr (Load_example l g) = g \<and>
   align (Load_example l g) = align l \<and>
   num (id' (GetLocal_0 mem)) = 0 \<and>
   cases (Switch_example s c1 c2 c3 d) =
     [c1\<lparr>fallthru := True\<rparr>, c2\<lparr>fallthru := True\<rparr>, c3\<lparr>fallthru := False\<rparr>] \<and>
   map fallthru (cases (Switch_example s c1 c2 c3 d)) = [True, True, False] \<and>
   map Case.value (cases (Switch_example s c1 c2 c3 d)) = [Case.value c1, Case.value c2, Case.value c3] \<and>
   map body (cases (Switch_example s c1 c2 c3 d)) = [body c1, body c2, body c3] \<and>
   default' (Switch_example s c1 c2 c3 d) = d \<and>
   var (Switch_example s c1 c2 c3 d) = var s \<and>
   Switch.value (Switch_example s c1 c2 c3 d) = Switch.value s"
  by (simp add: Load_example_def GetLocal_0_def Var_null_def num_write_num Switch_example_def
      cases_push_back_def)

subsection \<open>Registering and resolving\<close>



end
